theory Spec2Isabelle
  imports Main "HOL-Library.Char_ord" "HOL-Library.List_Lexorder" "HOL-Library.Sublist"
begin

section \<open>The sequential thinking server of server.go\<close>

text \<open>
  A Go \<open>string\<close> is a sequence of bytes and is compared bytewise, a proper prefix being
  smaller; \<open>string\<close> here is a list of 8-bit characters, ordered the same way by
  \<open>Char_ord\<close> and \<open>List_Lexorder\<close>. A Go \<open>int\<close> is only compared and copied by
  this program, never added to, so it is an \<open>int\<close>. The mutex \<open>mu\<close> is not a field of
  the model: one call of \<open>ProcessThought\<close> is one state transformer.
\<close>

subsection \<open>Data\<close>

record Output =
  ThoughtNumber :: int
  TotalThoughts :: int
  NextThoughtNeeded :: bool
  Branches :: "string list option"
  ThoughtHistoryLength :: int

text \<open>
  \<open>Branches\<close> is a Go slice: \<open>None\<close> is the nil slice, \<open>Some xs\<close> a slice holding \<open>xs\<close>.
\<close>

record ThoughtData =
  Thought :: string
  NextThoughtNeeded :: bool
  ThoughtNumber :: int
  TotalThoughts :: int
  IsRevision :: bool
  RevisesThought :: int
  BranchFromThought :: int
  BranchId :: string
  NeedsMoreThoughts :: bool

record SequentialThinkingServer =
  thoughtHistory :: "unit list"
  branches :: "string \<rightharpoonup> unit"
  branchKeys :: "string list"
  enableThoughtLogging :: bool

text \<open>The value made by \<open>errors.New\<close>: an error carrying its message.\<close>

datatype error = ErrorString string

subsection \<open>Construction\<close>

text \<open>\<open>strconv.ParseBool\<close>: \<open>None\<close> is its syntax error.\<close>

definition ParseBool :: "string \<Rightarrow> bool option" where
  "ParseBool str =
     (if str \<in> set [''1'', ''t'', ''T'', ''TRUE'', ''true'', ''True''] then Some True
      else if str \<in> set [''0'', ''f'', ''F'', ''FALSE'', ''false'', ''False''] then Some False
      else None)"

text \<open>
  \<open>val\<close> is what \<open>os.Getenv\<close> returns for the logging variable. \<open>branchKeys\<close> is left
  at its zero value, the nil slice, which has length 0 like the empty one.
\<close>

definition NewSequentialThinkingServer :: "string \<Rightarrow> SequentialThinkingServer" where
  "NewSequentialThinkingServer val =
     \<lparr>thoughtHistory = [],
      branches = Map.empty,
      branchKeys = [],
      enableThoughtLogging = (case ParseBool val of Some ok \<Rightarrow> ok | None \<Rightarrow> False)\<rparr>"

subsection \<open>Validation\<close>

definition validateThoughtData :: "ThoughtData \<Rightarrow> error option" where
  "validateThoughtData input =
     (if Thought input = '''' then Some (ErrorString ''invalid thought: must be a string'')
      else if ThoughtNumber input \<le> 0
        then Some (ErrorString ''invalid thoughtNumber: must be a number > 0'')
      else if TotalThoughts input \<le> 0
        then Some (ErrorString ''invalid totalThoughts: must be a number > 0'')
      else None)"

subsection \<open>Sorted insertion\<close>

text \<open>
  \<open>sort.Search\<close> of the Go library: the binary search for the least index in \<open>[i, j)\<close>
  at which \<open>f\<close> holds, \<open>j\<close> when there is none.
\<close>

function Search_from :: "nat \<Rightarrow> nat \<Rightarrow> (nat \<Rightarrow> bool) \<Rightarrow> nat" where
  "Search_from i j f =
     (if i < j then
        (let h = (i + j) div 2
         in if \<not> f h then Search_from (h + 1) j f else Search_from i h f)
      else i)"
  by pat_completeness auto
termination
  by (relation "measure (\<lambda>(i, j, f). j - i)") auto

declare Search_from.simps [simp del]

definition Search :: "nat \<Rightarrow> (nat \<Rightarrow> bool) \<Rightarrow> nat" where
  "Search n f = Search_from 0 n f"

definition SearchStrings :: "string list \<Rightarrow> string \<Rightarrow> nat" where
  "SearchStrings a x = Search (length a) (\<lambda>i. a ! i \<ge> x)"

text \<open>
  The builtin \<open>copy(s[d:], s[i:])\<close> on one slice: as many elements as the shorter of the
  two windows holds, read before any is overwritten.
\<close>

definition copy_within :: "'a list \<Rightarrow> nat \<Rightarrow> nat \<Rightarrow> 'a list" where
  "copy_within s d i =
     (let n = min (length s - d) (length s - i)
      in take d s @ take n (drop i s) @ drop (d + n) s)"

text \<open>Lines 184 to 191 of \<open>ProcessThought\<close>: the new value of \<open>s.branchKeys\<close>.\<close>

definition insertBranchKey :: "string list \<Rightarrow> string \<Rightarrow> string list" where
  "insertBranchKey keys branchID =
     (let insertAt = SearchStrings keys branchID
      in if insertAt = length keys then keys @ [branchID]
         else if keys ! insertAt \<noteq> branchID
           then (copy_within (keys @ ['''']) (insertAt + 1) insertAt)[insertAt := branchID]
         else keys)"

subsection \<open>Formatting for the log\<close>

text \<open>The verb \<open>%d\<close> of \<open>fmt.Sprintf\<close> on an \<open>int\<close>: decimal digits after a minus sign.\<close>

function utoa :: "nat \<Rightarrow> string" where
  "utoa n =
     (if n < 10 then [''0123456789'' ! n]
      else utoa (n div 10) @ [''0123456789'' ! (n mod 10)])"
  by pat_completeness auto
termination
  by (relation "measure id") auto

declare utoa.simps [simp del]

definition fmt_d :: "int \<Rightarrow> string" where
  "fmt_d i = (if i < 0 then CHR ''-'' # utoa (nat (- i)) else utoa (nat i))"

text \<open>\<open>strings.Repeat\<close> and \<open>strings.Replace\<close> with the count 1 (the first match only).\<close>

definition Repeat :: "string \<Rightarrow> nat \<Rightarrow> string" where
  "Repeat str count = concat (replicate count str)"

fun Replace1 :: "string \<Rightarrow> string \<Rightarrow> string \<Rightarrow> string" where
  "Replace1 [] old new = (if old = [] then new else [])"
| "Replace1 (c # cs) old new =
     (if prefix old (c # cs) then new @ drop (length old) (c # cs)
      else c # Replace1 cs old new)"

text \<open>The string literals of \<open>formatThought\<close> that are not ASCII, as their UTF-8 bytes.\<close>

definition emoji_revision :: string where
  "emoji_revision = [CHR 0xF0, CHR 0x9F, CHR 0x94, CHR 0x84]"

definition emoji_branch :: string where
  "emoji_branch = [CHR 0xF0, CHR 0x9F, CHR 0x8C, CHR 0xBF]"

definition emoji_thought :: string where
  "emoji_thought = [CHR 0xF0, CHR 0x9F, CHR 0x92, CHR 0xAD]"

definition box_horizontal :: string where
  "box_horizontal = [CHR 0xE2, CHR 0x94, CHR 0x80]"

definition box_vertical :: string where
  "box_vertical = [CHR 0xE2, CHR 0x94, CHR 0x82]"

definition box_top_left :: string where
  "box_top_left = [CHR 0xE2, CHR 0x94, CHR 0x8C]"

definition box_top_right :: string where
  "box_top_right = [CHR 0xE2, CHR 0x94, CHR 0x90]"

definition box_mid_left :: string where
  "box_mid_left = [CHR 0xE2, CHR 0x94, CHR 0x9C]"

definition box_mid_right :: string where
  "box_mid_right = [CHR 0xE2, CHR 0x94, CHR 0xA4]"

definition box_bottom_left :: string where
  "box_bottom_left = [CHR 0xE2, CHR 0x94, CHR 0x94]"

definition box_bottom_right :: string where
  "box_bottom_right = [CHR 0xE2, CHR 0x94, CHR 0x98]"

definition newline :: string where
  "newline = [CHR 0x0A]"

text \<open>The first \<open>switch\<close> of \<open>formatThought\<close>: \<open>prefixText\<close> and \<open>context\<close> (here \<open>context_of\<close>).\<close>

definition prefixText :: "ThoughtData \<Rightarrow> string" where
  "prefixText thoughtData =
     (if IsRevision thoughtData then emoji_revision @ '' Revision''
      else if BranchFromThought thoughtData < 0 then emoji_branch @ '' Branch''
      else emoji_thought @ '' Thought'')"

definition context_of :: "ThoughtData \<Rightarrow> string" where
  "context_of thoughtData =
     (if IsRevision thoughtData then
        (if RevisesThought thoughtData < 0
         then '' (revising thought '' @ fmt_d (RevisesThought thoughtData) @ '')''
         else '''')
      else if BranchFromThought thoughtData < 0 then
        (let branchID = (if BranchId thoughtData \<noteq> '''' then BranchId thoughtData else '''')
         in '' (from thought '' @ fmt_d (BranchFromThought thoughtData) @ '', ID: ''
              @ branchID @ '')'')
      else '''')"

definition headerContent :: "ThoughtData \<Rightarrow> string" where
  "headerContent thoughtData =
     prefixText thoughtData @ '' '' @ fmt_d (ThoughtNumber thoughtData) @ ''/''
       @ fmt_d (TotalThoughts thoughtData) @ context_of thoughtData"

text \<open>
  The colours are raw string literals in the source, so the backslash and the digits
  stand for themselves.
\<close>

definition coloredPrefix :: "ThoughtData \<Rightarrow> string" where
  "coloredPrefix thoughtData =
     (let yellow = [CHR 0x5C] @ ''033[33m''; green = [CHR 0x5C] @ ''033[32m'';
          blue = [CHR 0x5C] @ ''033[34m''; reset = [CHR 0x5C] @ ''033[0m''
      in if IsRevision thoughtData then yellow @ prefixText thoughtData @ reset
         else if BranchFromThought thoughtData < 0 then green @ prefixText thoughtData @ reset
         else blue @ prefixText thoughtData @ reset)"

text \<open>
  \<open>len\<close> counts bytes, and \<open>math.Max\<close> on the two lengths converted to \<open>float64\<close> is
  their maximum. \<open>borderLen\<close> exceeds both lengths by 4, so neither count given to
  \<open>strings.Repeat\<close> is negative and the subtraction on \<open>nat\<close> is the one on \<open>int\<close>.
\<close>

definition formatThought :: "ThoughtData \<Rightarrow> string" where
  "formatThought thoughtData =
     (let coloredHeader =
            Replace1 (headerContent thoughtData) (prefixText thoughtData)
              (coloredPrefix thoughtData);
          borderLen = max (length (headerContent thoughtData)) (length (Thought thoughtData)) + 4;
          border = Repeat box_horizontal borderLen
      in newline @ box_top_left @ border @ box_top_right @ newline
         @ box_vertical @ '' '' @ coloredHeader
         @ Repeat '' '' (borderLen - length (headerContent thoughtData) - 2)
         @ '' '' @ box_vertical @ newline
         @ box_mid_left @ border @ box_mid_right @ newline
         @ box_vertical @ '' '' @ Thought thoughtData
         @ Repeat '' '' (borderLen - length (Thought thoughtData) - 2)
         @ '' '' @ box_vertical @ newline
         @ box_bottom_left @ border @ box_bottom_right)"

subsection \<open>Processing a thought\<close>

text \<open>
  The result is the error or the \<open>Output\<close> that is marshalled into the reply, the server
  after the call, and what the call wrote to the standard error stream (\<open>fmt.Fprintln\<close>
  ends the frame with a newline). \<open>input0\<close> is the parameter as passed and \<open>input\<close> the
  parameter after the assignment of line 169. An \<open>Output\<close> holds integers, a boolean and
  a slice of strings, which the encoder always writes, so the error return after
  \<open>MarshalToString\<close> is not a branch of the model, and the reply is the \<open>Output\<close> itself
  rather than its JSON text.
\<close>

definition ProcessThought ::
  "SequentialThinkingServer \<Rightarrow> ThoughtData
     \<Rightarrow> (error + Output) \<times> SequentialThinkingServer \<times> string list" where
  "ProcessThought s input0 =
     (case validateThoughtData input0 of
        Some err \<Rightarrow> (Inl err, s, [])
      | None \<Rightarrow>
        (let input = (if ThoughtNumber input0 > TotalThoughts input0
                      then input0\<lparr>TotalThoughts := ThoughtNumber input0\<rparr> else input0);
             s1 = s\<lparr>thoughtHistory := thoughtHistory s @ [()]\<rparr>;
             s2 = (if BranchFromThought input < 0 \<and> BranchId input \<noteq> '''' then
                     (let branchID = BranchId input
                      in if branches s1 branchID = None
                         then s1\<lparr>branches := (branches s1)(branchID \<mapsto> ()),
                                 branchKeys := insertBranchKey (branchKeys s1) branchID\<rparr>
                         else s1)
                   else s1);
             historyLen = int (length (thoughtHistory s2));
             branchesSnapshot = (if length (branchKeys s2) > 0
                                 then Some ([] @ branchKeys s2) else None);
             written = (if enableThoughtLogging s2 then [formatThought input @ newline] else []);
             output = \<lparr>Output.ThoughtNumber = ThoughtNumber input,
                       Output.TotalThoughts = TotalThoughts input,
                       Output.NextThoughtNeeded = NextThoughtNeeded input,
                       Branches = branchesSnapshot,
                       ThoughtHistoryLength = historyLen\<rparr>
         in (Inr output, s2, written)))"

text \<open>Calls made one after the other on one server, with the result of each.\<close>

fun ProcessThoughts ::
  "SequentialThinkingServer \<Rightarrow> ThoughtData list
     \<Rightarrow> (error + Output) list \<times> SequentialThinkingServer" where
  "ProcessThoughts s [] = ([], s)"
| "ProcessThoughts s (input # inputs) =
     (case ProcessThought s input of
        (r, s', written) \<Rightarrow>
          (case ProcessThoughts s' inputs of (rs, s'') \<Rightarrow> (r # rs, s'')))"

subsection \<open>Inputs of the repository's tests\<close>

text \<open>The three inputs of \<open>TestSequentialThinkingServerProcessThoughtSuccess\<close>.\<close>

definition input_first :: ThoughtData where
  "input_first = \<lparr>Thought = ''first'', NextThoughtNeeded = True, ThoughtNumber = 2,
     TotalThoughts = 1, IsRevision = False, RevisesThought = 0, BranchFromThought = - 1,
     BranchId = ''b'', NeedsMoreThoughts = False\<rparr>"

definition input_second :: ThoughtData where
  "input_second = \<lparr>Thought = ''second'', NextThoughtNeeded = False, ThoughtNumber = 3,
     TotalThoughts = 3, IsRevision = False, RevisesThought = 0, BranchFromThought = - 2,
     BranchId = ''a'', NeedsMoreThoughts = False\<rparr>"

definition input_third :: ThoughtData where
  "input_third = \<lparr>Thought = ''third'', NextThoughtNeeded = False, ThoughtNumber = 1,
     TotalThoughts = 1, IsRevision = False, RevisesThought = 0, BranchFromThought = 1,
     BranchId = ''ignored'', NeedsMoreThoughts = False\<rparr>"


text \<open>The input of the case \<open>format: revision\<close> of \<open>TestSequentialThinkingServerFormatThought\<close>.\<close>

definition input_revision :: ThoughtData where
  "input_revision = \<lparr>Thought = ''revise'', NextThoughtNeeded = False, ThoughtNumber = 1,
     TotalThoughts = 2, IsRevision = True, RevisesThought = - 2, BranchFromThought = 0,
     BranchId = '''', NeedsMoreThoughts = False\<rparr>"

subsection \<open>Reading a reply and a run\<close>

text \<open>The identifiers a reply lists: none for the nil slice.\<close>

definition branchList :: "Output \<Rightarrow> string list" where
  "branchList out = (case Branches out of None \<Rightarrow> [] | Some bs \<Rightarrow> bs)"

text \<open>
  The identifiers that the accepted calls among \<open>inputs\<close> asked to register: those of the
  valid inputs that pass the test of line 180.
\<close>

definition registered :: "ThoughtData list \<Rightarrow> string set" where
  "registered inputs =
     set (map BranchId
       (filter (\<lambda>input. validateThoughtData input = None
                  \<and> BranchFromThought input < 0 \<and> BranchId input \<noteq> '''') inputs))"


section \<open>Properties\<close>

subsection \<open>Binary search and insertion\<close>

lemma Search_from_spec:
  fixes a :: "'a::linorder list"
  assumes "sorted a" "i \<le> j" "j \<le> length a"
    "\<forall>k<i. a ! k < x" "\<forall>k. j \<le> k \<longrightarrow> k < length a \<longrightarrow> x \<le> a ! k"
  shows "i \<le> Search_from i j (\<lambda>k. x \<le> a ! k) \<and> Search_from i j (\<lambda>k. x \<le> a ! k) \<le> j
     \<and> (\<forall>k < Search_from i j (\<lambda>k. x \<le> a ! k). a ! k < x)
     \<and> (\<forall>k. Search_from i j (\<lambda>k. x \<le> a ! k) \<le> k \<longrightarrow> k < length a \<longrightarrow> x \<le> a ! k)"
  using assms
proof (induction i j "\<lambda>k. x \<le> a ! k" rule: Search_from.induct)
  case (1 i j)
  note srt = "1.prems"(1) and ij = "1.prems"(2) and jn = "1.prems"(3)
    and lo = "1.prems"(4) and hi = "1.prems"(5)
  show ?case
  proof (cases "i < j")
    case False
    then have "Search_from i j (\<lambda>k. x \<le> a ! k) = i"
      by (simp add: Search_from.simps [of i j])
    moreover have "i = j" using False ij by simp
    ultimately show ?thesis using lo hi by simp
  next
    case True
    define h where "h = (i + j) div 2"
    have hb: "i \<le> h" "h < j" using True by (simp_all add: h_def)
    have hn: "h < length a" using hb jn by simp
    show ?thesis
    proof (cases "x \<le> a ! h")
      case False
      have lo': "\<forall>k<h + 1. a ! k < x"
      proof (intro allI impI)
        fix k assume "k < h + 1"
        then have "k \<le> h" by simp
        then have "a ! k \<le> a ! h" by (rule sorted_nth_mono [OF srt _ hn])
        with False show "a ! k < x" by simp
      qed
      have hj: "h + 1 \<le> j" using hb by simp
      have eq: "Search_from i j (\<lambda>k. x \<le> a ! k) = Search_from (h + 1) j (\<lambda>k. x \<le> a ! k)"
        using True False by (simp add: Search_from.simps [of i j] h_def)
      note ih = "1.hyps"(1) [OF True h_def False srt hj jn lo' hi]
      show ?thesis unfolding eq using ih hb by simp
    next
      case hit: True
      have hi': "\<forall>k. h \<le> k \<longrightarrow> k < length a \<longrightarrow> x \<le> a ! k"
      proof (intro allI impI)
        fix k assume "h \<le> k" "k < length a"
        then have "a ! h \<le> a ! k" by (rule sorted_nth_mono [OF srt])
        with hit show "x \<le> a ! k" by simp
      qed
      have nn: "\<not> \<not> x \<le> a ! h" using hit by simp
      have hl: "h \<le> length a" using hn by simp
      have eq: "Search_from i j (\<lambda>k. x \<le> a ! k) = Search_from i h (\<lambda>k. x \<le> a ! k)"
        using True hit by (simp add: Search_from.simps [of i j] h_def)
      note ih = "1.hyps"(2) [OF True h_def nn srt hb(1) hl lo hi']
      show ?thesis unfolding eq using ih hb by simp
    qed
  qed
qed

lemma SearchStrings_spec:
  assumes "sorted a"
  shows "SearchStrings a x \<le> length a
     \<and> (\<forall>y\<in>set (take (SearchStrings a x) a). y < x)
     \<and> (\<forall>y\<in>set (drop (SearchStrings a x) a). x \<le> y)"
proof -
  let ?r = "SearchStrings a x"
  have s: "0 \<le> ?r \<and> ?r \<le> length a \<and> (\<forall>k < ?r. a ! k < x)
     \<and> (\<forall>k. ?r \<le> k \<longrightarrow> k < length a \<longrightarrow> x \<le> a ! k)"
    unfolding SearchStrings_def Search_def
    using Search_from_spec [OF assms, of 0 "length a" x] by simp
  have "\<forall>y\<in>set (take ?r a). y < x"
    using s by (auto simp: in_set_conv_nth)
  moreover have "\<forall>y\<in>set (drop ?r a). x \<le> y"
    using s by (auto simp: in_set_conv_nth)
  ultimately show ?thesis using s by simp
qed

lemma copy_within_insert:
  assumes "i < length ks"
  shows "(copy_within (ks @ [e]) (i + 1) i)[i := b] = take i ks @ b # drop i ks"
proof -
  have "copy_within (ks @ [e]) (i + 1) i = take (i + 1) ks @ drop i ks"
  proof -
    have "min (length (ks @ [e]) - (i + 1)) (length (ks @ [e]) - i) = length ks - i"
      using assms by simp
    then show ?thesis using assms by (simp add: copy_within_def)
  qed
  also have "\<dots> = take i ks @ ks ! i # drop i ks"
    using assms by (simp add: take_Suc_conv_app_nth)
  finally show ?thesis
    using assms by (simp add: list_update_append)
qed


lemma insertBranchKey_eq:
  assumes "sorted keys"
  shows "insertBranchKey keys b =
     (if b \<in> set keys then keys
      else take (SearchStrings keys b) keys @ b # drop (SearchStrings keys b) keys)"
proof -
  let ?r = "SearchStrings keys b"
  note sp = SearchStrings_spec [OF assms, of b]
  show ?thesis
  proof (cases "?r = length keys")
    case True
    have "b \<notin> set keys" using sp True by auto
    then show ?thesis using True by (simp add: insertBranchKey_def)
  next
    case False
    then have lt: "?r < length keys" using sp by simp
    then have mem: "keys ! ?r \<in> set (drop ?r keys)"
      by (metis Cons_nth_drop_Suc list.set_intros(1))
    show ?thesis
    proof (cases "keys ! ?r = b")
      case True
      then have "b \<in> set keys" using lt by (metis nth_mem)
      then show ?thesis using True False by (simp add: insertBranchKey_def)
    next
      case neq: False
      have "b \<notin> set keys"
      proof
        assume "b \<in> set keys"
        then have "b \<in> set (take ?r keys) \<or> b \<in> set (drop ?r keys)"
          by (metis Un_iff append_take_drop_id set_append)
        then have bd: "b \<in> set (drop ?r keys)" using sp by auto
        have "sorted (drop ?r keys)" using assms by simp
        moreover have "drop ?r keys = keys ! ?r # drop (Suc ?r) keys"
          using lt by (simp add: Cons_nth_drop_Suc)
        ultimately have "\<forall>y\<in>set (drop ?r keys). keys ! ?r \<le> y" by auto
        then have "keys ! ?r \<le> b" using bd by simp
        moreover have "b \<le> keys ! ?r" using sp mem by simp
        ultimately show False using neq by simp
      qed
      then show ?thesis
        using neq False lt
        by (simp add: insertBranchKey_def Let_def copy_within_insert [simplified])
    qed
  qed
qed

lemma set_insertBranchKey:
  assumes "sorted keys"
  shows "set (insertBranchKey keys b) = insert b (set keys)"
proof -
  have "set (take (SearchStrings keys b) keys) \<union> set (drop (SearchStrings keys b) keys)
      = set keys"
    by (metis append_take_drop_id set_append)
  then show ?thesis
    using assms by (auto simp: insertBranchKey_eq)
qed

lemma sorted_insertBranchKey:
  assumes "sorted keys"
  shows "sorted (insertBranchKey keys b)"
proof -
  let ?r = "SearchStrings keys b"
  note sp = SearchStrings_spec [OF assms, of b]
  have "sorted (take ?r keys @ b # drop ?r keys)"
  proof -
    have "sorted (take ?r keys)" "sorted (drop ?r keys)"
      using assms by simp_all
    moreover have "\<forall>y\<in>set (take ?r keys). y \<le> b" using sp by auto
    moreover have "\<forall>y\<in>set (take ?r keys). \<forall>z\<in>set (drop ?r keys). y \<le> z"
      using sp by (meson less_le_trans less_imp_le)
    ultimately show ?thesis using sp by (simp add: sorted_append)
  qed
  then show ?thesis using assms by (simp add: insertBranchKey_eq)
qed

lemma distinct_insertBranchKey:
  assumes "sorted keys" "distinct keys"
  shows "distinct (insertBranchKey keys b)"
proof (cases "b \<in> set keys")
  case True
  then show ?thesis using assms by (simp add: insertBranchKey_eq)
next
  case False
  let ?r = "SearchStrings keys b"
  have "distinct (take ?r keys) \<and> distinct (drop ?r keys)
      \<and> set (take ?r keys) \<inter> set (drop ?r keys) = {}"
    by (metis assms(2) append_take_drop_id distinct_append)
  then have "distinct (take ?r keys @ b # drop ?r keys)"
    using False by (auto dest: in_set_takeD in_set_dropD)
  then show ?thesis using False assms by (simp add: insertBranchKey_eq)
qed

subsection \<open>One call\<close>

lemma validateThoughtData_None_iff:
  "validateThoughtData input = None \<longleftrightarrow>
     Thought input \<noteq> '''' \<and> 0 < ThoughtNumber input \<and> 0 < TotalThoughts input"
  by (simp add: validateThoughtData_def)

lemma ProcessThought_error:
  "validateThoughtData input = Some e \<Longrightarrow> ProcessThought s input = (Inl e, s, [])"
  by (simp add: ProcessThought_def)

lemma ProcessThought_valid:
  assumes "validateThoughtData input = None"
  obtains out s' w where "ProcessThought s input = (Inr out, s', w)"
    and "Output.ThoughtNumber out = ThoughtNumber input"
    and "Output.TotalThoughts out = max (ThoughtNumber input) (TotalThoughts input)"
    and "Output.NextThoughtNeeded out = NextThoughtNeeded input"
    and "Branches out = (if branchKeys s' = [] then None else Some (branchKeys s'))"
    and "ThoughtHistoryLength out = int (length (thoughtHistory s'))"
    and "thoughtHistory s' = thoughtHistory s @ [()]"
    and "enableThoughtLogging s' = enableThoughtLogging s"
    and "BranchFromThought input < 0 \<and> BranchId input \<noteq> '''' \<and> branches s (BranchId input) = None
          \<Longrightarrow> branches s' = (branches s)(BranchId input \<mapsto> ())
              \<and> branchKeys s' = insertBranchKey (branchKeys s) (BranchId input)"
    and "\<not> (BranchFromThought input < 0 \<and> BranchId input \<noteq> '''' \<and> branches s (BranchId input) = None)
          \<Longrightarrow> branches s' = branches s \<and> branchKeys s' = branchKeys s"
proof -
  define input' where "input' = (if ThoughtNumber input > TotalThoughts input
                      then input\<lparr>TotalThoughts := ThoughtNumber input\<rparr> else input)"
  define s1 where "s1 = s\<lparr>thoughtHistory := thoughtHistory s @ [()]\<rparr>"
  define s2 where "s2 = (if BranchFromThought input' < 0 \<and> BranchId input' \<noteq> '''' then
                     (let branchID = BranchId input'
                      in if branches s1 branchID = None
                         then s1\<lparr>branches := (branches s1)(branchID \<mapsto> ()),
                                 branchKeys := insertBranchKey (branchKeys s1) branchID\<rparr>
                         else s1)
                   else s1)"
  define out where "out = \<lparr>Output.ThoughtNumber = ThoughtNumber input',
                       Output.TotalThoughts = TotalThoughts input',
                       Output.NextThoughtNeeded = NextThoughtNeeded input',
                       Branches = (if length (branchKeys s2) > 0
                                 then Some ([] @ branchKeys s2) else None),
                       ThoughtHistoryLength = int (length (thoughtHistory s2))\<rparr>"
  define w where "w = (if enableThoughtLogging s2 then [formatThought input' @ newline] else [])"
  have eq: "ProcessThought s input = (Inr out, s2, w)"
    unfolding ProcessThought_def Let_def assms input'_def s1_def s2_def out_def w_def
    by simp
  have i: "ThoughtNumber input' = ThoughtNumber input"
    "TotalThoughts input' = max (ThoughtNumber input) (TotalThoughts input)"
    "NextThoughtNeeded input' = NextThoughtNeeded input"
    "BranchFromThought input' = BranchFromThought input" "BranchId input' = BranchId input"
    by (simp_all add: input'_def max_def)
  have s1: "thoughtHistory s1 = thoughtHistory s @ [()]" "branches s1 = branches s"
    "branchKeys s1 = branchKeys s" "enableThoughtLogging s1 = enableThoughtLogging s"
    by (simp_all add: s1_def)
  have s2: "thoughtHistory s2 = thoughtHistory s1" "enableThoughtLogging s2 = enableThoughtLogging s1"
    by (simp_all add: s2_def Let_def)
  show thesis
  proof (rule that [of out s2 w])
    show "ProcessThought s input = (Inr out, s2, w)" by (rule eq)
    show "Output.ThoughtNumber out = ThoughtNumber input" by (simp add: out_def i)
    show "Output.TotalThoughts out = max (ThoughtNumber input) (TotalThoughts input)"
      by (simp add: out_def i)
    show "Output.NextThoughtNeeded out = NextThoughtNeeded input" by (simp add: out_def i)
    show "Branches out = (if branchKeys s2 = [] then None else Some (branchKeys s2))"
      by (simp add: out_def)
    show "ThoughtHistoryLength out = int (length (thoughtHistory s2))" by (simp add: out_def)
    show "thoughtHistory s2 = thoughtHistory s @ [()]" by (simp add: s2 s1)
    show "enableThoughtLogging s2 = enableThoughtLogging s" by (simp add: s2 s1)
    show "branches s2 = (branches s)(BranchId input \<mapsto> ())
              \<and> branchKeys s2 = insertBranchKey (branchKeys s) (BranchId input)"
      if "BranchFromThought input < 0 \<and> BranchId input \<noteq> '''' \<and> branches s (BranchId input) = None"
      using that by (simp add: s2_def i s1 Let_def)
    show "branches s2 = branches s \<and> branchKeys s2 = branchKeys s"
      if "\<not> (BranchFromThought input < 0 \<and> BranchId input \<noteq> '''' \<and> branches s (BranchId input) = None)"
      using that by (auto simp: s2_def i s1 Let_def)
  qed
qed

subsection \<open>Validation\<close>

text \<open>
  C4: \<open>ProcessThought\<close> validates before it changes anything, and the first rule that
  fails decides the error: an empty \<open>Thought\<close> gives the error about the thought; otherwise
  a \<open>ThoughtNumber\<close> that is not positive gives the error about the thought number;
  otherwise a \<open>TotalThoughts\<close> that is not positive gives the error about the total;
  otherwise the call succeeds. At every failure the server returned is the server given,
  so its history and its branches are as before, and nothing is written.
\<close>

theorem validation_first_failure_wins:
  "(Thought input = '''' \<longrightarrow>
      ProcessThought s input = (Inl (ErrorString ''invalid thought: must be a string''), s, []))
   \<and> (Thought input \<noteq> '''' \<and> ThoughtNumber input \<le> 0 \<longrightarrow>
      ProcessThought s input
        = (Inl (ErrorString ''invalid thoughtNumber: must be a number > 0''), s, []))
   \<and> (Thought input \<noteq> '''' \<and> 0 < ThoughtNumber input \<and> TotalThoughts input \<le> 0 \<longrightarrow>
      ProcessThought s input
        = (Inl (ErrorString ''invalid totalThoughts: must be a number > 0''), s, []))
   \<and> (Thought input \<noteq> '''' \<and> 0 < ThoughtNumber input \<and> 0 < TotalThoughts input \<longrightarrow>
      (\<exists>out s' w. ProcessThought s input = (Inr out, s', w)))"
proof (intro conjI impI)
  assume "Thought input \<noteq> '''' \<and> 0 < ThoughtNumber input \<and> 0 < TotalThoughts input"
  then have "validateThoughtData input = None" by (simp add: validateThoughtData_None_iff)
  then show "\<exists>out s' w. ProcessThought s input = (Inr out, s', w)"
    by (rule ProcessThought_valid) blast
qed (simp_all add: ProcessThought_error validateThoughtData_def)

theorem validation_first_failure_wins_witness:
  "ProcessThought (NewSequentialThinkingServer '''')
       (input_first\<lparr>Thought := '''', ThoughtNumber := 0, TotalThoughts := 0\<rparr>)
     = (Inl (ErrorString ''invalid thought: must be a string''),
        NewSequentialThinkingServer '''', [])
   \<and> ProcessThought (NewSequentialThinkingServer '''')
       (input_first\<lparr>ThoughtNumber := 0, TotalThoughts := 0\<rparr>)
     = (Inl (ErrorString ''invalid thoughtNumber: must be a number > 0''),
        NewSequentialThinkingServer '''', [])
   \<and> ProcessThought (NewSequentialThinkingServer '''') (input_first\<lparr>TotalThoughts := 0\<rparr>)
     = (Inl (ErrorString ''invalid totalThoughts: must be a number > 0''),
        NewSequentialThinkingServer '''', [])
   \<and> (\<exists>out s' w. ProcessThought (NewSequentialThinkingServer '''') input_first
         = (Inr out, s', w))"
  using
    validation_first_failure_wins [of "input_first\<lparr>Thought := '''', ThoughtNumber := 0, TotalThoughts := 0\<rparr>"
      "NewSequentialThinkingServer ''''"]
    validation_first_failure_wins [of "input_first\<lparr>ThoughtNumber := 0, TotalThoughts := 0\<rparr>"
      "NewSequentialThinkingServer ''''"]
    validation_first_failure_wins [of "input_first\<lparr>TotalThoughts := 0\<rparr>"
      "NewSequentialThinkingServer ''''"]
    validation_first_failure_wins [of input_first "NewSequentialThinkingServer ''''"]
  by (simp add: input_first_def)

subsection \<open>The reply to a valid input\<close>

text \<open>
  C5: a valid input is never rejected; the total of the reply is the input's
  \<open>ThoughtNumber\<close> when that exceeds the input's \<open>TotalThoughts\<close> and the input's
  \<open>TotalThoughts\<close> otherwise, so it is never below the input's estimate.
\<close>

theorem total_raised_to_number:
  assumes "Thought input \<noteq> ''''" and "0 < ThoughtNumber input" and "0 < TotalThoughts input"
  shows "\<exists>out s' w. ProcessThought s input = (Inr out, s', w)
     \<and> Output.TotalThoughts out
         = (if ThoughtNumber input > TotalThoughts input then ThoughtNumber input
            else TotalThoughts input)
     \<and> TotalThoughts input \<le> Output.TotalThoughts out"
proof -
  have "validateThoughtData input = None"
    using assms by (simp add: validateThoughtData_None_iff)
  then show ?thesis
    by (rule ProcessThought_valid [of input s]) (auto simp: max_def)
qed

theorem total_raised_to_number_witness:
  "(\<exists>out s' w. ProcessThought (NewSequentialThinkingServer '''') input_first = (Inr out, s', w)
      \<and> Output.TotalThoughts out = 2)
   \<and> (\<exists>out s' w. ProcessThought (NewSequentialThinkingServer '''') input_second = (Inr out, s', w)
      \<and> Output.TotalThoughts out = 3)"
  using total_raised_to_number [of input_first "NewSequentialThinkingServer ''''"]
    total_raised_to_number [of input_second "NewSequentialThinkingServer ''''"]
  by (auto simp: input_first_def input_second_def)

text \<open>
  C10: for a valid input the reply carries the input's \<open>ThoughtNumber\<close> and its
  \<open>NextThoughtNeeded\<close> flag as they were given.
\<close>

theorem number_and_next_echoed:
  assumes "Thought input \<noteq> ''''" and "0 < ThoughtNumber input" and "0 < TotalThoughts input"
  shows "\<exists>out s' w. ProcessThought s input = (Inr out, s', w)
     \<and> Output.ThoughtNumber out = ThoughtNumber input
     \<and> Output.NextThoughtNeeded out = NextThoughtNeeded input"
proof -
  have "validateThoughtData input = None"
    using assms by (simp add: validateThoughtData_None_iff)
  then show ?thesis
    by (rule ProcessThought_valid [of input s]) auto
qed

theorem number_and_next_echoed_witness:
  "\<exists>out s' w. ProcessThought (NewSequentialThinkingServer '''') input_first = (Inr out, s', w)
      \<and> Output.ThoughtNumber out = 2 \<and> Output.NextThoughtNeeded out = True"
  using number_and_next_echoed [of input_first "NewSequentialThinkingServer ''''"]
  by (simp add: input_first_def)

subsection \<open>Runs of calls\<close>

lemma ProcessThoughts_Cons:
  "ProcessThoughts s (x # xs) =
     (fst (ProcessThought s x) # fst (ProcessThoughts (fst (snd (ProcessThought s x))) xs),
      snd (ProcessThoughts (fst (snd (ProcessThought s x))) xs))"
  by (simp split: prod.splits)

lemma ProcessThoughts_append:
  "ProcessThoughts s (xs @ ys) =
     (fst (ProcessThoughts s xs) @ fst (ProcessThoughts (snd (ProcessThoughts s xs)) ys),
      snd (ProcessThoughts (snd (ProcessThoughts s xs)) ys))"
  by (induction xs arbitrary: s) (simp_all add: ProcessThoughts_Cons del: ProcessThoughts.simps(2))

lemma length_ProcessThoughts: "length (fst (ProcessThoughts s xs)) = length xs"
  by (induction xs arbitrary: s) (simp_all add: ProcessThoughts_Cons del: ProcessThoughts.simps(2))

lemma ProcessThoughts_single:
  "ProcessThoughts s [x] = ([fst (ProcessThought s x)], fst (snd (ProcessThought s x)))"
  by (simp add: ProcessThoughts_Cons del: ProcessThoughts.simps(2))

lemma ProcessThoughts_nth:
  assumes "k < length xs"
  shows "fst (ProcessThoughts s xs) ! k
     = fst (ProcessThought (snd (ProcessThoughts s (take k xs))) (xs ! k))"
proof -
  have "xs = take k xs @ (xs ! k # drop (Suc k) xs)"
    using assms by (simp add: id_take_nth_drop)
  then have "fst (ProcessThoughts s xs) ! k
      = (fst (ProcessThoughts s (take k xs))
         @ fst (ProcessThoughts (snd (ProcessThoughts s (take k xs))) (xs ! k # drop (Suc k) xs))) ! k"
    by (metis ProcessThoughts_append fst_conv)
  also have "\<dots> = fst (ProcessThoughts (snd (ProcessThoughts s (take k xs)))
                       (xs ! k # drop (Suc k) xs)) ! 0"
    using assms by (simp add: nth_append length_ProcessThoughts)
  also have "\<dots> = fst (ProcessThought (snd (ProcessThoughts s (take k xs))) (xs ! k))"
    by (simp add: ProcessThoughts_Cons del: ProcessThoughts.simps(2))
  finally show ?thesis .
qed

lemma ProcessThoughts_take_Suc:
  assumes "k < length xs"
  shows "snd (ProcessThoughts s (take (Suc k) xs))
     = fst (snd (ProcessThought (snd (ProcessThoughts s (take k xs))) (xs ! k)))"
  using assms
  by (simp add: take_Suc_conv_app_nth ProcessThoughts_append ProcessThoughts_single
      del: ProcessThoughts.simps)

lemma registered_append: "registered (xs @ ys) = registered xs \<union> registered ys"
  by (simp add: registered_def)

lemma registered_Nil: "registered [] = {}"
  by (simp add: registered_def)

lemma registered_single:
  "registered [x] = (if validateThoughtData x = None \<and> BranchFromThought x < 0 \<and> BranchId x \<noteq> ''''
     then {BranchId x} else {})"
  by (simp add: registered_def)

lemma ProcessThought_step:
  assumes "sorted (branchKeys s)" and "distinct (branchKeys s)"
    and "dom (branches s) = set (branchKeys s)"
  shows "sorted (branchKeys (fst (snd (ProcessThought s x))))
     \<and> distinct (branchKeys (fst (snd (ProcessThought s x))))
     \<and> dom (branches (fst (snd (ProcessThought s x))))
         = set (branchKeys (fst (snd (ProcessThought s x))))
     \<and> set (branchKeys (fst (snd (ProcessThought s x)))) = set (branchKeys s) \<union> registered [x]
     \<and> length (thoughtHistory (fst (snd (ProcessThought s x))))
         = length (thoughtHistory s) + (if validateThoughtData x = None then 1 else 0)
     \<and> enableThoughtLogging (fst (snd (ProcessThought s x))) = enableThoughtLogging s"
proof (cases "validateThoughtData x")
  case (Some e)
  then show ?thesis using assms by (simp add: ProcessThought_error registered_single)
next
  case None
  from None obtain out s' w where p: "ProcessThought s x = (Inr out, s', w)"
    and h: "thoughtHistory s' = thoughtHistory s @ [()]"
    and l: "enableThoughtLogging s' = enableThoughtLogging s"
    and reg: "BranchFromThought x < 0 \<and> BranchId x \<noteq> '''' \<and> branches s (BranchId x) = None
          \<Longrightarrow> branches s' = (branches s)(BranchId x \<mapsto> ())
              \<and> branchKeys s' = insertBranchKey (branchKeys s) (BranchId x)"
    and nreg: "\<not> (BranchFromThought x < 0 \<and> BranchId x \<noteq> '''' \<and> branches s (BranchId x) = None)
          \<Longrightarrow> branches s' = branches s \<and> branchKeys s' = branchKeys s"
    by (rule ProcessThought_valid [of x s]) blast
  have s': "fst (snd (ProcessThought s x)) = s'" using p by simp
  show ?thesis
  proof (cases "BranchFromThought x < 0 \<and> BranchId x \<noteq> '''' \<and> branches s (BranchId x) = None")
    case True
    with reg have b: "branches s' = (branches s)(BranchId x \<mapsto> ())"
      and k: "branchKeys s' = insertBranchKey (branchKeys s) (BranchId x)" by simp_all
    have "dom (branches s') = set (branchKeys s')"
      using assms b k by (simp add: set_insertBranchKey)
    moreover have "set (branchKeys s') = set (branchKeys s) \<union> registered [x]"
      using assms k True None by (simp add: set_insertBranchKey registered_single)
    ultimately show ?thesis
      unfolding s' using assms k h l None
      by (simp add: sorted_insertBranchKey distinct_insertBranchKey)
  next
    case False
    with nreg have b: "branches s' = branches s" and k: "branchKeys s' = branchKeys s"
      by simp_all
    have "registered [x] \<subseteq> set (branchKeys s)"
    proof (cases "BranchFromThought x < 0 \<and> BranchId x \<noteq> ''''")
      case True
      with False have "BranchId x \<in> dom (branches s)" by auto
      then show ?thesis using assms by (simp add: registered_single)
    next
      case False
      then show ?thesis by (auto simp: registered_single)
    qed
    then have "set (branchKeys s') = set (branchKeys s) \<union> registered [x]"
      using k by auto
    then show ?thesis
      unfolding s' using assms b k h l None by simp
  qed
qed

lemma ProcessThoughts_run:
  assumes "sorted (branchKeys s)" and "distinct (branchKeys s)"
    and "dom (branches s) = set (branchKeys s)"
  shows "sorted (branchKeys (snd (ProcessThoughts s xs)))
     \<and> distinct (branchKeys (snd (ProcessThoughts s xs)))
     \<and> dom (branches (snd (ProcessThoughts s xs))) = set (branchKeys (snd (ProcessThoughts s xs)))
     \<and> set (branchKeys (snd (ProcessThoughts s xs))) = set (branchKeys s) \<union> registered xs
     \<and> length (thoughtHistory (snd (ProcessThoughts s xs)))
         = length (thoughtHistory s) + length (filter (\<lambda>x. validateThoughtData x = None) xs)
     \<and> enableThoughtLogging (snd (ProcessThoughts s xs)) = enableThoughtLogging s"
proof (induction xs rule: rev_induct)
  case Nil
  then show ?case using assms by (simp add: registered_Nil)
next
  case (snoc x xs)
  let ?s = "snd (ProcessThoughts s xs)"
  have eq: "snd (ProcessThoughts s (xs @ [x])) = fst (snd (ProcessThought ?s x))"
    by (simp add: ProcessThoughts_append ProcessThoughts_single del: ProcessThoughts.simps)
  from snoc have a: "sorted (branchKeys ?s)" "distinct (branchKeys ?s)"
    "dom (branches ?s) = set (branchKeys ?s)" by simp_all
  note st = ProcessThought_step [OF a, of x]
  show ?case
    unfolding eq using st snoc by (simp add: registered_append Un_assoc)
qed

lemma New_inv:
  "sorted (branchKeys (NewSequentialThinkingServer val))
   \<and> distinct (branchKeys (NewSequentialThinkingServer val))
   \<and> dom (branches (NewSequentialThinkingServer val))
       = set (branchKeys (NewSequentialThinkingServer val))
   \<and> branchKeys (NewSequentialThinkingServer val) = []
   \<and> thoughtHistory (NewSequentialThinkingServer val) = []"
  by (simp add: NewSequentialThinkingServer_def)

lemma registered_mono: "set xs \<subseteq> set ys \<Longrightarrow> registered xs \<subseteq> registered ys"
  by (auto simp: registered_def)

lemma ProcessThought_Inr_valid:
  "fst (ProcessThought s x) = Inr out \<Longrightarrow> validateThoughtData x = None"
  by (cases "validateThoughtData x") (simp_all add: ProcessThought_error)

lemma reply_reads_state:
  assumes "k < length xs" and "fst (ProcessThoughts s xs) ! k = Inr out"
  shows "validateThoughtData (xs ! k) = None
     \<and> Branches out = (if branchKeys (snd (ProcessThoughts s (take (Suc k) xs))) = [] then None
                       else Some (branchKeys (snd (ProcessThoughts s (take (Suc k) xs)))))
     \<and> ThoughtHistoryLength out
         = int (length (thoughtHistory (snd (ProcessThoughts s (take (Suc k) xs)))))"
proof -
  let ?s = "snd (ProcessThoughts s (take k xs))"
  have r: "fst (ProcessThought ?s (xs ! k)) = Inr out"
    using assms by (simp add: ProcessThoughts_nth)
  then have v: "validateThoughtData (xs ! k) = None" by (rule ProcessThought_Inr_valid)
  from v obtain out' s' w where p: "ProcessThought ?s (xs ! k) = (Inr out', s', w)"
    and b: "Branches out' = (if branchKeys s' = [] then None else Some (branchKeys s'))"
    and h: "ThoughtHistoryLength out' = int (length (thoughtHistory s'))"
    by (rule ProcessThought_valid [of "xs ! k" ?s]) blast
  have "out' = out" using p r by simp
  moreover have "snd (ProcessThoughts s (take (Suc k) xs)) = s'"
    using assms(1) p by (simp add: ProcessThoughts_take_Suc)
  ultimately show ?thesis using v b h by simp
qed

lemma branchList_reply:
  assumes "k < length xs" and "fst (ProcessThoughts s xs) ! k = Inr out"
  shows "branchList out = branchKeys (snd (ProcessThoughts s (take (Suc k) xs)))"
  using reply_reads_state [OF assms] by (simp add: branchList_def)

lemma fresh_run:
  "sorted (branchKeys (snd (ProcessThoughts (NewSequentialThinkingServer val) xs)))
   \<and> distinct (branchKeys (snd (ProcessThoughts (NewSequentialThinkingServer val) xs)))
   \<and> dom (branches (snd (ProcessThoughts (NewSequentialThinkingServer val) xs))) = registered xs
   \<and> set (branchKeys (snd (ProcessThoughts (NewSequentialThinkingServer val) xs))) = registered xs
   \<and> length (thoughtHistory (snd (ProcessThoughts (NewSequentialThinkingServer val) xs)))
       = length (filter (\<lambda>x. validateThoughtData x = None) xs)"
proof -
  have a: "sorted (branchKeys (NewSequentialThinkingServer val))"
    "distinct (branchKeys (NewSequentialThinkingServer val))"
    "dom (branches (NewSequentialThinkingServer val))
       = set (branchKeys (NewSequentialThinkingServer val))"
    by (simp_all add: New_inv)
  show ?thesis
    using ProcessThoughts_run [OF a, of xs] by (simp add: New_inv)
qed

subsection \<open>The repository's tests, replayed\<close>

text \<open>
  The two cases of \<open>TestSequentialThinkingServerProcessThoughtSuccess\<close>, with the replies
  the test expects.
\<close>

lemma test_branches_sorted_and_history_tracked:
  "fst (ProcessThoughts (NewSequentialThinkingServer '''') [input_first, input_second])
     = [Inr \<lparr>Output.ThoughtNumber = 2, TotalThoughts = 2, NextThoughtNeeded = True,
             Branches = Some [''b''], ThoughtHistoryLength = 1\<rparr>,
        Inr \<lparr>Output.ThoughtNumber = 3, TotalThoughts = 3, NextThoughtNeeded = False,
             Branches = Some [''a'', ''b''], ThoughtHistoryLength = 2\<rparr>]"
  by code_simp

lemma test_no_branch_when_branchFromThought_non_negative:
  "fst (ProcessThoughts (NewSequentialThinkingServer '''') [input_third])
     = [Inr \<lparr>Output.ThoughtNumber = 1, TotalThoughts = 1, NextThoughtNeeded = False,
             Branches = None, ThoughtHistoryLength = 1\<rparr>]"
  by code_simp


subsection \<open>The history count\<close>

text \<open>
  C2: every valid call lengthens the history by exactly one, whatever the server and
  whatever the input says about branches, and its reply reports the length after its own
  increment; so when every input of a run on a new server is valid, the call at position
  \<open>k\<close> (counted from 0) replies with the history length \<open>k + 1\<close>.
\<close>

theorem history_counts_every_valid_call:
  "(Thought input \<noteq> '''' \<and> 0 < ThoughtNumber input \<and> 0 < TotalThoughts input \<longrightarrow>
      (\<exists>out s' w. ProcessThought s input = (Inr out, s', w)
         \<and> length (thoughtHistory s') = length (thoughtHistory s) + 1
         \<and> ThoughtHistoryLength out = int (length (thoughtHistory s'))))
   \<and> ((\<forall>x\<in>set inputs. validateThoughtData x = None) \<longrightarrow>
      (\<forall>k<length inputs. \<exists>out.
         fst (ProcessThoughts (NewSequentialThinkingServer val) inputs) ! k = Inr out
         \<and> ThoughtHistoryLength out = int k + 1))"
proof (intro conjI impI allI)
  assume "Thought input \<noteq> '''' \<and> 0 < ThoughtNumber input \<and> 0 < TotalThoughts input"
  then have "validateThoughtData input = None" by (simp add: validateThoughtData_None_iff)
  then show "\<exists>out s' w. ProcessThought s input = (Inr out, s', w)
         \<and> length (thoughtHistory s') = length (thoughtHistory s) + 1
         \<and> ThoughtHistoryLength out = int (length (thoughtHistory s'))"
    by (rule ProcessThought_valid [of input s]) auto
next
  fix k
  assume all: "\<forall>x\<in>set inputs. validateThoughtData x = None" and k: "k < length inputs"
  let ?s = "snd (ProcessThoughts (NewSequentialThinkingServer val) (take k inputs))"
  have "\<forall>x\<in>set (take k inputs). validateThoughtData x = None"
    using all by (auto dest: in_set_takeD)
  then have "filter (\<lambda>x. validateThoughtData x = None) (take k inputs) = take k inputs"
    by simp
  then have len: "length (thoughtHistory ?s) = k"
    using fresh_run [of val "take k inputs"] k by simp
  have "validateThoughtData (inputs ! k) = None" using all k by simp
  then obtain out s' w where p: "ProcessThought ?s (inputs ! k) = (Inr out, s', w)"
    and h: "ThoughtHistoryLength out = int (length (thoughtHistory s'))"
    and t: "thoughtHistory s' = thoughtHistory ?s @ [()]"
    by (rule ProcessThought_valid [of "inputs ! k" ?s]) blast
  have "fst (ProcessThoughts (NewSequentialThinkingServer val) inputs) ! k = Inr out"
    using k p by (simp add: ProcessThoughts_nth)
  moreover have "ThoughtHistoryLength out = int k + 1" using h t len by simp
  ultimately show "\<exists>out. fst (ProcessThoughts (NewSequentialThinkingServer val) inputs) ! k = Inr out
         \<and> ThoughtHistoryLength out = int k + 1" by blast
qed

theorem history_counts_every_valid_call_witness:
  "(\<exists>out s' w. ProcessThought (NewSequentialThinkingServer '''') input_first = (Inr out, s', w)
      \<and> length (thoughtHistory s') = 1 \<and> ThoughtHistoryLength out = 1)
   \<and> (\<exists>out. fst (ProcessThoughts (NewSequentialThinkingServer '''')
                  [input_first, input_second, input_first]) ! 2 = Inr out
      \<and> ThoughtHistoryLength out = 3)"
proof -
  note t = history_counts_every_valid_call [of input_first "NewSequentialThinkingServer ''''"
      "[input_first, input_second, input_first]" "''''"]
  have v: "Thought input_first \<noteq> '''' \<and> 0 < ThoughtNumber input_first
      \<and> 0 < TotalThoughts input_first"
    by (simp add: input_first_def)
  have a: "\<forall>x\<in>set [input_first, input_second, input_first]. validateThoughtData x = None"
    by (simp add: input_first_def input_second_def validateThoughtData_def)
  have "\<exists>out s' w. ProcessThought (NewSequentialThinkingServer '''') input_first = (Inr out, s', w)
      \<and> length (thoughtHistory s') = length (thoughtHistory (NewSequentialThinkingServer '''')) + 1
      \<and> ThoughtHistoryLength out = int (length (thoughtHistory s'))"
    using t v by blast
  then have "\<exists>out s' w. ProcessThought (NewSequentialThinkingServer '''') input_first = (Inr out, s', w)
      \<and> length (thoughtHistory s') = 1 \<and> ThoughtHistoryLength out = 1"
    by (auto simp: NewSequentialThinkingServer_def)
  moreover have "\<forall>k<length [input_first, input_second, input_first]. \<exists>out.
         fst (ProcessThoughts (NewSequentialThinkingServer '''')
               [input_first, input_second, input_first]) ! k = Inr out
         \<and> ThoughtHistoryLength out = int k + 1"
    using t a by blast
  then have "\<exists>out. fst (ProcessThoughts (NewSequentialThinkingServer '''')
                  [input_first, input_second, input_first]) ! 2 = Inr out
      \<and> ThoughtHistoryLength out = int 2 + 1"
    by (metis length_Cons lessI list.size(3) numeral_2_eq_2 Suc_lessD)
  ultimately show ?thesis by simp
qed

subsection \<open>Branches\<close>


text \<open>
  C3: after any run of calls on a new server, valid or not, \<open>branchKeys\<close> is sorted and
  without duplicates and is contained in \<open>branchKeys\<close> after any longer run; the branch
  list of every reply is sorted and without duplicates, contains every identifier the
  server held at any earlier point of the run, and contains the branch list of every
  earlier reply.
\<close>

theorem branch_list_sorted_unique_growing:
  "sorted (branchKeys (snd (ProcessThoughts (NewSequentialThinkingServer val) inputs)))
   \<and> distinct (branchKeys (snd (ProcessThoughts (NewSequentialThinkingServer val) inputs)))
   \<and> set (branchKeys (snd (ProcessThoughts (NewSequentialThinkingServer val) inputs)))
       \<subseteq> set (branchKeys (snd (ProcessThoughts (NewSequentialThinkingServer val)
                                  (inputs @ later))))
   \<and> (\<forall>k<length inputs. \<forall>out.
        fst (ProcessThoughts (NewSequentialThinkingServer val) inputs) ! k = Inr out \<longrightarrow>
          sorted (branchList out) \<and> distinct (branchList out)
          \<and> (\<forall>j\<le>Suc k. set (branchKeys (snd (ProcessThoughts (NewSequentialThinkingServer val)
                                               (take j inputs))))
                \<subseteq> set (branchList out))
          \<and> (\<forall>j<k. \<forall>out'.
                fst (ProcessThoughts (NewSequentialThinkingServer val) inputs) ! j = Inr out' \<longrightarrow>
                  set (branchList out') \<subseteq> set (branchList out)))"
proof (intro conjI allI impI)
  let ?new = "NewSequentialThinkingServer val"
  show "sorted (branchKeys (snd (ProcessThoughts ?new inputs)))"
    and "distinct (branchKeys (snd (ProcessThoughts ?new inputs)))"
    by (simp_all add: fresh_run)
  show "set (branchKeys (snd (ProcessThoughts ?new inputs)))
       \<subseteq> set (branchKeys (snd (ProcessThoughts ?new (inputs @ later))))"
    by (simp add: fresh_run registered_append)
  fix k out
  assume k: "k < length inputs" and r: "fst (ProcessThoughts ?new inputs) ! k = Inr out"
  have bl: "branchList out = branchKeys (snd (ProcessThoughts ?new (take (Suc k) inputs)))"
    using k r by (rule branchList_reply)
  show "sorted (branchList out)" and "distinct (branchList out)"
    unfolding bl by (simp_all add: fresh_run)
  have grow: "set (branchKeys (snd (ProcessThoughts ?new (take j inputs)))) \<subseteq> set (branchList out)"
    if "j \<le> Suc k" for j
  proof -
    have "set (take j inputs) \<subseteq> set (take (Suc k) inputs)"
      using that by (rule set_take_subset_set_take)
    then show ?thesis
      unfolding bl by (simp add: fresh_run registered_mono)
  qed
  show "set (branchKeys (snd (ProcessThoughts ?new (take j inputs)))) \<subseteq> set (branchList out)"
    if "j \<le> Suc k" for j
    using that by (rule grow)
  show "set (branchList out') \<subseteq> set (branchList out)"
    if "j < k" and "fst (ProcessThoughts ?new inputs) ! j = Inr out'" for j out'
  proof -
    have "j < length inputs" using that(1) k by simp
    then have "branchList out' = branchKeys (snd (ProcessThoughts ?new (take (Suc j) inputs)))"
      using that(2) by (rule branchList_reply)
    moreover have "Suc j \<le> Suc k" using that(1) by simp
    ultimately show ?thesis using grow by simp
  qed
qed

theorem branch_list_sorted_unique_growing_witness:
  "branchKeys (snd (ProcessThoughts (NewSequentialThinkingServer '''') [input_first]))
     = [''b'']
   \<and> (\<exists>out. fst (ProcessThoughts (NewSequentialThinkingServer '''')
                  [input_first, input_second]) ! 1 = Inr out
        \<and> branchList out = [''a'', ''b'']
        \<and> sorted (branchList out) \<and> distinct (branchList out)
        \<and> set (branchKeys (snd (ProcessThoughts (NewSequentialThinkingServer '''')
                                 (take 1 [input_first, input_second]))))
            \<subseteq> set (branchList out))"
proof -
  let ?run = "ProcessThoughts (NewSequentialThinkingServer '''') [input_first, input_second]"
  define out where "out = \<lparr>Output.ThoughtNumber = 3, TotalThoughts = 3,
     NextThoughtNeeded = False, Branches = Some [''a'', ''b''], ThoughtHistoryLength = 2\<rparr>"
  have r: "fst ?run ! 1 = Inr out"
    unfolding test_branches_sorted_and_history_tracked by (simp add: out_def)
  have k: "(1::nat) < length [input_first, input_second]" by simp
  have all: "sorted (branchList out) \<and> distinct (branchList out)
      \<and> (\<forall>j\<le>Suc 1. set (branchKeys (snd (ProcessThoughts (NewSequentialThinkingServer '''')
                                           (take j [input_first, input_second]))))
              \<subseteq> set (branchList out))"
    using branch_list_sorted_unique_growing [of "''''" "[input_first, input_second]" "[]"] k r
    by blast
  then have "\<forall>j\<le>Suc 1. set (branchKeys (snd (ProcessThoughts (NewSequentialThinkingServer '''')
                                           (take j [input_first, input_second]))))
              \<subseteq> set (branchList out)"
    by blast
  then have "1 \<le> Suc 1 \<longrightarrow>
      set (branchKeys (snd (ProcessThoughts (NewSequentialThinkingServer '''')
                              (take 1 [input_first, input_second]))))
        \<subseteq> set (branchList out)"
    by (rule spec)
  then have "set (branchKeys (snd (ProcessThoughts (NewSequentialThinkingServer '''')
                                     (take 1 [input_first, input_second]))))
        \<subseteq> set (branchList out)"
    by (rule mp) simp
  moreover have "sorted (branchList out)" "distinct (branchList out)" using all by blast+
  moreover have "branchList out = [''a'', ''b'']" by (simp add: out_def branchList_def)
  moreover have "branchKeys (snd (ProcessThoughts (NewSequentialThinkingServer '''') [input_first]))
     = [''b'']" by code_simp
  ultimately show ?thesis using r by blast
qed

text \<open>
  C9: in a run on a new server, the reply of an accepted call has no branch list (the nil
  slice) exactly when none of the calls accepted so far, this one included, asked to
  register an identifier; otherwise its branch list is the server's \<open>branchKeys\<close> after
  the call, which holds exactly the identifiers registered so far, each once, and these
  are also the keys of \<open>branches\<close>.
\<close>

theorem branches_nil_iff_nothing_registered:
  assumes "k < length inputs"
    and "fst (ProcessThoughts (NewSequentialThinkingServer val) inputs) ! k = Inr out"
  shows "(Branches out = None \<longleftrightarrow> registered (take (Suc k) inputs) = {})
     \<and> (\<forall>bs. Branches out = Some bs \<longrightarrow>
          bs = branchKeys (snd (ProcessThoughts (NewSequentialThinkingServer val)
                                  (take (Suc k) inputs)))
          \<and> set bs = registered (take (Suc k) inputs) \<and> distinct bs)
     \<and> dom (branches (snd (ProcessThoughts (NewSequentialThinkingServer val)
                              (take (Suc k) inputs))))
         = registered (take (Suc k) inputs)"
proof -
  let ?s = "snd (ProcessThoughts (NewSequentialThinkingServer val) (take (Suc k) inputs))"
  note f = fresh_run [of val "take (Suc k) inputs"]
  have b: "Branches out = (if branchKeys ?s = [] then None else Some (branchKeys ?s))"
    using reply_reads_state [OF assms] by simp
  have e: "branchKeys ?s = [] \<longleftrightarrow> registered (take (Suc k) inputs) = {}"
    using f by (metis set_empty)
  show ?thesis using b e f by auto
qed

theorem branches_nil_iff_nothing_registered_witness:
  "(\<exists>out. fst (ProcessThoughts (NewSequentialThinkingServer '''') [input_third]) ! 0 = Inr out
      \<and> Branches out = None \<and> registered (take (Suc 0) [input_third]) = {})
   \<and> (\<exists>out. fst (ProcessThoughts (NewSequentialThinkingServer '''')
                  [input_first, input_second]) ! 1 = Inr out
      \<and> Branches out = Some [''a'', ''b'']
      \<and> registered (take (Suc 1) [input_first, input_second]) = {''a'', ''b''})"
proof -
  define out3 where "out3 = \<lparr>Output.ThoughtNumber = 1, TotalThoughts = 1,
     NextThoughtNeeded = False, Branches = None, ThoughtHistoryLength = 1\<rparr>"
  define out2 where "out2 = \<lparr>Output.ThoughtNumber = 3, TotalThoughts = 3,
     NextThoughtNeeded = False, Branches = Some [''a'', ''b''], ThoughtHistoryLength = 2\<rparr>"
  have r3: "fst (ProcessThoughts (NewSequentialThinkingServer '''') [input_third]) ! 0 = Inr out3"
    unfolding test_no_branch_when_branchFromThought_non_negative by (simp add: out3_def)
  have r2: "fst (ProcessThoughts (NewSequentialThinkingServer '''') [input_first, input_second]) ! 1
      = Inr out2"
    unfolding test_branches_sorted_and_history_tracked by (simp add: out2_def)
  have "Branches out3 = None \<longleftrightarrow> registered (take (Suc 0) [input_third]) = {}"
    using branches_nil_iff_nothing_registered [of 0 "[input_third]" "''''" out3] r3 by simp
  then have a: "registered (take (Suc 0) [input_third]) = {}" by (simp add: out3_def)
  have "\<forall>bs. Branches out2 = Some bs \<longrightarrow>
      set bs = registered (take (Suc 1) [input_first, input_second])"
    using branches_nil_iff_nothing_registered [of 1 "[input_first, input_second]" "''''" out2] r2
    by simp
  then have b: "registered (take (Suc 1) [input_first, input_second]) = {''a'', ''b''}"
    by (auto simp: out2_def)
  show ?thesis using r3 r2 a b by (simp add: out3_def out2_def)
qed

subsection \<open>Positive references to an earlier thought\<close>

text \<open>
  C1: the claim is that a valid input with a positive \<open>BranchFromThought\<close> and a non-empty
  \<open>BranchId\<close> that is not yet known gets its branch registered and listed in the reply. The
  third test input is such an input (\<open>BranchFromThought = 1\<close>, \<open>BranchId = ''ignored''\<close>), and
  on a new server \<open>ProcessThought\<close> replies without any branch list and leaves
  \<open>branchKeys\<close> and \<open>branches\<close> empty: line 180 asks for \<open>BranchFromThought < 0\<close>.
\<close>

theorem positive_branchFrom_is_not_registered:
  "Thought input_third = ''third'' \<and> ThoughtNumber input_third = 1
   \<and> TotalThoughts input_third = 1 \<and> BranchFromThought input_third = 1
   \<and> BranchId input_third = ''ignored''
   \<and> branches (NewSequentialThinkingServer '''') ''ignored'' = None
   \<and> fst (ProcessThought (NewSequentialThinkingServer '''') input_third)
       = Inr \<lparr>Output.ThoughtNumber = 1, TotalThoughts = 1, NextThoughtNeeded = False,
              Branches = None, ThoughtHistoryLength = 1\<rparr>
   \<and> branchKeys (fst (snd (ProcessThought (NewSequentialThinkingServer '''') input_third))) = []
   \<and> branches (fst (snd (ProcessThought (NewSequentialThinkingServer '''') input_third)))
        ''ignored'' = None"
  by code_simp

text \<open>
  C8: the claim is that the header of a revision with a reference \<open>R \<ge> 1\<close> ends in
  \<open>(revising thought R)\<close>. For the revision input of the format test with the reference 2
  in place of \<open>- 2\<close>, the header is the prefix and \<open>1/2\<close> with nothing after it, and the
  frame holds no such context: line 103 asks for \<open>RevisesThought < 0\<close>. With the test's own
  reference \<open>- 2\<close> the context is there.
\<close>

theorem positive_revision_header_has_no_context:
  "IsRevision (input_revision\<lparr>RevisesThought := 2\<rparr>)
   \<and> RevisesThought (input_revision\<lparr>RevisesThought := 2\<rparr>) = 2
   \<and> ThoughtNumber (input_revision\<lparr>RevisesThought := 2\<rparr>) = 1
   \<and> TotalThoughts (input_revision\<lparr>RevisesThought := 2\<rparr>) = 2
   \<and> headerContent (input_revision\<lparr>RevisesThought := 2\<rparr>) = emoji_revision @ '' Revision 1/2''
   \<and> formatThought (input_revision\<lparr>RevisesThought := 2\<rparr>)
       = newline @ box_top_left @ Repeat box_horizontal 21 @ box_top_right @ newline
         @ box_vertical @ '' '' @ [CHR 0x5C] @ ''033[33m'' @ emoji_revision @ '' Revision''
         @ [CHR 0x5C] @ ''033[0m 1/2'' @ Repeat '' '' 2 @ '' '' @ box_vertical @ newline
         @ box_mid_left @ Repeat box_horizontal 21 @ box_mid_right @ newline
         @ box_vertical @ '' revise'' @ Repeat '' '' 13 @ '' '' @ box_vertical @ newline
         @ box_bottom_left @ Repeat box_horizontal 21 @ box_bottom_right
   \<and> headerContent input_revision = emoji_revision @ '' Revision 1/2 (revising thought -2)''"
  by code_simp

end
